theory Spec2Isabelle
  imports Main "HOL-Library.Word" "HOL-Library.Signed_Division" "HOL-Library.Multiset"
begin

section \<open>Identifiable records and channels\<close>

text \<open>
  Package \<open>mapreduce\<close> of tideland/go-dsa (file \<open>mapreduce/mapreduce.go\<close>).
  An \<open>Identifiable\<close> is an interface value with a method \<open>ID() string\<close>; the
  engine never looks at anything else, so a record is its identity string together
  with an opaque payload.
\<close>

datatype 'p identifiable = Identifiable (ID: string) (payload: 'p)

text \<open>
  The channels one call of \<open>MapReduce\<close> creates, named after the variables that hold
  them: \<open>mapEmitChan\<close> and \<open>reduceEmitChan\<close> (made in \<open>MapReduce\<close>),
  \<open>mapChans[i]\<close> and \<open>reduceChans[i]\<close> (made in the two start loops), the
  \<open>signals\<close> channel of each of the two calls of \<open>newCloserChan\<close>, and the channel
  the caller's \<open>Input()\<close> returns. All of them are unbuffered.
\<close>

datatype chan =
    inputChan
  | mapChans nat
  | mapEmitChan
  | mapSignals
  | reduceChans nat
  | reduceEmitChan
  | reduceSignals

section \<open>The checksum of hash/adler32\<close>

text \<open>
  \<open>performReducing\<close> calls \<open>adler32.Checksum\<close> of Go's standard library
  (RFC 1950): \<open>s1\<close> starts at 1 and adds every byte, \<open>s2\<close> starts at 0 and adds
  every \<open>s1\<close>, both modulo 65521; the checksum is \<open>s2 << 16 | s1\<close> as a
  \<open>uint32\<close>. (The library reduces modulo 65521 once per block of 5552 bytes, the
  longest block whose sums fit 32 bits, which gives the same value as reducing at every
  byte.)
\<close>

unbundle bit_operations_syntax

definition adler32_byte :: "nat \<times> nat \<Rightarrow> char \<Rightarrow> nat \<times> nat" where
  "adler32_byte d x =
     (let s1 = (fst d + of_char x) mod 65521
      in (s1, (snd d + s1) mod 65521))"

definition adler32_update :: "nat \<times> nat \<Rightarrow> string \<Rightarrow> nat \<times> nat" where
  "adler32_update d p = foldl adler32_byte d p"

definition adler32_Checksum :: "string \<Rightarrow> 32 word" where
  "adler32_Checksum data =
     (case adler32_update (1, 0) data of
        (s1, s2) \<Rightarrow> push_bit 16 (of_nat s2) OR of_nat s1)"

text \<open>
  The index computation of \<open>performReducing\<close>:
  \<^verbatim>\<open>
      hash := adler32.Checksum([]byte(kv.ID()))
      idx := hash % uint32(size)
      reduceChans[idx] <- kv
  \<close>
  \<open>uint32(size)\<close> keeps the low 32 bits of \<open>size\<close>; a remainder by zero panics,
  and so does an index outside the slice of \<open>size\<close> channels. \<open>None\<close> is the panic.
\<close>

definition reduceIndex :: "nat \<Rightarrow> string \<Rightarrow> nat option" where
  "reduceIndex sz ident =
     (if (of_nat sz :: 32 word) = 0 then None
      else let idx = unat (adler32_Checksum ident mod of_nat sz)
           in if idx < sz then Some idx else None)"

text \<open>
  The index computation of \<open>performMapping\<close>:
  \<^verbatim>\<open>
      mapChans[idx%size] <- kv
  \<close>
  with \<open>size := runtime.NumCPU() * 4\<close>, the length of \<open>mapChans\<close>. Go's \<open>%\<close> on
  \<open>int\<close> is the remainder of the division that truncates towards zero, so it has the
  sign of \<open>idx\<close>; a remainder by zero panics, and so does an index that is negative
  or not below the length of the slice. \<open>None\<close> is the panic.
\<close>

definition mapIndex :: "nat \<Rightarrow> 'w::len word \<Rightarrow> nat option" where
  "mapIndex ncpu idx =
     (if (of_nat (ncpu * 4) :: 'w word) = 0 then None
      else let r = sint idx smod sint (of_nat (ncpu * 4) :: 'w word)
           in if 0 \<le> r \<and> nat r < ncpu * 4 then Some (nat r) else None)"

section \<open>The caller's MapReducer\<close>

text \<open>
  The four methods of the interface \<open>MapReducer\<close> are the caller's code. They are
  modelled by what they do on the channels they are given, as the package's contract
  and its test (\<open>OrderMapReducer\<close>) have it:
  \<^item> \<open>Input()\<close> returns a channel that a goroutine of the caller's feeds with the
    records \<open>Input mr\<close>, in this order, and closes afterwards;
  \<^item> \<open>Map(in, emit)\<close> sends the records \<open>Map mr in\<close> on \<open>emit\<close> and returns;
  \<^item> \<open>Reduce(in, emit)\<close> receives from \<open>in\<close> until it is closed, then sends the
    records \<open>Reduce mr received\<close> on \<open>emit\<close> and returns;
  \<^item> \<open>Consume(in)\<close> is any function that only receives from \<open>in\<close>: after the
    receptions \<open>h\<close> (\<open>Some kv\<close> for a record, \<open>None\<close> for a reception from the
    closed channel) it either receives again or returns an error value (\<open>None\<close> is
    Go's \<open>nil\<close>).
\<close>

datatype 'e consume_step = Receive | Return "'e option"

record ('p, 'e) MapReducer =
  Input :: "'p identifiable list"
  Map :: "'p identifiable \<Rightarrow> 'p identifiable list"
  Reduce :: "'p identifiable list \<Rightarrow> 'p identifiable list"
  Consume :: "'p identifiable option list \<Rightarrow> 'e consume_step"

section \<open>Goroutines\<close>

text \<open>
  A goroutine is modelled by its program point together with its live local variables
  (\<open>thread\<close>), and \<open>stmt\<close> gives the operation the goroutine performs next at
  that point, with the program point it continues at:
  \<^item> \<open>Send c v t\<close> is \<open>c <- v\<close>; \<open>Recv c k\<close> is a reception from \<open>c\<close>, as in
    \<open>for kv := range c\<close>, continuing at \<open>k (Some v)\<close> with a value and at
    \<open>k None\<close> when \<open>c\<close> is closed;
  \<^item> \<open>SendSig c t\<close> is \<open>c <- struct{}{}\<close> and \<open>RecvSig c t\<close> is \<open><-c\<close> on a
    \<open>closerChan\<close>;
  \<^item> \<open>Close c t\<close> is \<open>close(c)\<close>; \<open>Go u t\<close> is \<open>go\<close>, starting \<open>u\<close>;
  \<^item> \<open>Mark m t\<close> is a step that touches no channel: the call of one of the
    caller's methods, or a return;
  \<^item> \<open>Panic\<close> is a run-time panic and \<open>Exit\<close> the end of the goroutine.
\<close>

datatype ('p, 'e) mark =
    Map_call "'p identifiable" chan
  | Reduce_call chan chan
  | Consume_call chan
  | Consume_returns "'e option"
  | MapReduce_returns "'e option"

datatype ('p, 'e, 't) act =
    Send chan "'p identifiable" 't
  | Recv chan "'p identifiable option \<Rightarrow> 't"
  | SendSig chan 't
  | RecvSig chan 't
  | Close chan 't
  | Go 't 't
  | Mark "('p, 'e) mark" 't
  | Panic
  | Exit

text \<open>
  The program points. \<open>MapReduce\<close>:
  \<^verbatim>\<open>
      go performReducing(mr, mapEmitChan, reduceEmitChan)
      go performMapping(mr, mapEmitChan)
      return mr.Consume(reduceEmitChan)
  \<close>
  the goroutine of \<open>newCloserChan(kvc, size)\<close>, with its counter \<open>ctr\<close>;
  \<open>performReducing\<close> with its three loops and the goroutine it starts for every
  reducer; \<open>performMapping\<close> likewise; and the goroutine behind \<open>Input()\<close>.
  The counters \<open>ctr\<close> and \<open>idx\<close> and the parameter \<open>size\<close> of
  \<open>newCloserChan\<close> are Go \<open>int\<close>s: signed machine integers of 32 or 64 bits,
  according to the platform, whose \<open>++\<close> wraps around. They are words of any width
  \<open>'w\<close>, read as signed numbers by \<open>sint\<close> (the program points are declared over
  any type \<open>'i\<close> of counters, and the package runs them with \<open>'i = 'w word\<close>). The
  loop variables \<open>i\<close> of the start and close loops stay between 0 and the number of
  channels.
\<close>

datatype ('p, 'e, 'i) thread =
    MapReduce_go_performReducing
  | MapReduce_go_performMapping
  | MapReduce_Consume
  | Consume_body "'p identifiable option list"
  | MapReduce_return "'e option"
  | closer_recv chan 'i chan 'i
  | closer_Close chan chan
  | closer_close_signals chan
  | performReducing_newCloserChan
  | performReducing_go nat
  | performReducing_range
  | performReducing_send "'p identifiable"
  | performReducing_Close nat
  | reducer_Reduce chan
  | Reduce_range chan chan "'p identifiable list"
  | Reduce_emit chan "'p identifiable list"
  | performMapping_newCloserChan
  | performMapping_go nat
  | performMapping_range 'i
  | performMapping_send 'i "'p identifiable"
  | performMapping_Close nat
  | mapper_range chan
  | mapper_Map chan "'p identifiable"
  | Map_emit chan chan "'p identifiable list"
  | mapper_signal
  | Input_send "'p identifiable list"
  | exited

text \<open>
  \<open>closer_recv kvc size signals ctr\<close> stands at \<open><-signals\<close> in
  \<^verbatim>\<open>
      ctr := 0
      for {
          <-signals
          ctr++
          if ctr == size {
              kvc.Close()
              close(signals)
              return
          }
      }
  \<close>
\<close>

definition newCloserChan :: "chan \<Rightarrow> 'w::len word \<Rightarrow> chan \<Rightarrow> ('p, 'e, 'w word) thread" where
  "newCloserChan kvc sz signals = closer_recv kvc sz signals 0"

text \<open>The receptions of the three \<open>range\<close> loops of the package.\<close>

definition range_mapEmitChan :: "('p, 'e, ('p, 'e, 'w::len word) thread) act" where
  "range_mapEmitChan =
     Recv mapEmitChan
       (\<lambda>m. case m of Some kv \<Rightarrow> performReducing_send kv | None \<Rightarrow> performReducing_Close 0)"

definition range_Input :: "'w::len word \<Rightarrow> ('p, 'e, ('p, 'e, 'w word) thread) act" where
  "range_Input idx =
     Recv inputChan
       (\<lambda>m. case m of Some kv \<Rightarrow> performMapping_send idx kv | None \<Rightarrow> performMapping_Close 0)"

definition range_in :: "chan \<Rightarrow> ('p, 'e, ('p, 'e, 'w::len word) thread) act" where
  "range_in c =
     Recv c (\<lambda>m. case m of Some kv \<Rightarrow> mapper_Map c kv | None \<Rightarrow> mapper_signal)"

text \<open>
  \<open>stmt ncpu mr t\<close>: the operation at program point \<open>t\<close>, where \<open>ncpu\<close> is the
  value of \<open>runtime.NumCPU()\<close> and \<open>mr\<close> the caller's MapReducer. The number of
  processors is a positive \<open>int\<close> small enough for \<open>runtime.NumCPU() * 4\<close> to be an
  \<open>int\<close> as well (\<open>ncpu * 4 < 2 ^ (LENGTH('w) - 1)\<close>, a hypothesis wherever it
  matters), so the lengths of the two slices of channels are \<open>ncpu\<close> and
  \<open>ncpu * 4\<close>.
\<close>

fun stmt ::
  "nat \<Rightarrow> ('p, 'e) MapReducer \<Rightarrow> ('p, 'e, 'w::len word) thread \<Rightarrow>
   ('p, 'e, ('p, 'e, 'w word) thread) act" where
  "stmt ncpu mr MapReduce_go_performReducing =
     Go performReducing_newCloserChan MapReduce_go_performMapping"
| "stmt ncpu mr MapReduce_go_performMapping =
     Go performMapping_newCloserChan MapReduce_Consume"
| "stmt ncpu mr MapReduce_Consume =
     Mark (Consume_call reduceEmitChan) (Consume_body [])"
| "stmt ncpu mr (Consume_body h) =
     (case Consume mr h of
        Receive \<Rightarrow> Recv reduceEmitChan (\<lambda>m. Consume_body (h @ [m]))
      | Return e \<Rightarrow> Mark (Consume_returns e) (MapReduce_return e))"
| "stmt ncpu mr (MapReduce_return e) = Mark (MapReduce_returns e) exited"
| "stmt ncpu mr (closer_recv kvc sz signals ctr) =
     RecvSig signals
       (if ctr + 1 = sz then closer_Close kvc signals
        else closer_recv kvc sz signals (ctr + 1))"
| "stmt ncpu mr (closer_Close kvc signals) = Close kvc (closer_close_signals signals)"
| "stmt ncpu mr (closer_close_signals signals) = Close signals exited"
| "stmt ncpu mr performReducing_newCloserChan =
     Go (newCloserChan reduceEmitChan (of_nat ncpu) reduceSignals) (performReducing_go 0)"
| "stmt ncpu mr (performReducing_go i) =
     (if i < ncpu then Go (reducer_Reduce (reduceChans i)) (performReducing_go (Suc i))
      else range_mapEmitChan)"
| "stmt ncpu mr performReducing_range = range_mapEmitChan"
| "stmt ncpu mr (performReducing_send kv) =
     (case reduceIndex ncpu (ID kv) of
        None \<Rightarrow> Panic
      | Some idx \<Rightarrow> Send (reduceChans idx) kv performReducing_range)"
| "stmt ncpu mr (performReducing_Close i) =
     (if i < ncpu then Close (reduceChans i) (performReducing_Close (Suc i)) else Exit)"
| "stmt ncpu mr (reducer_Reduce c) =
     Mark (Reduce_call c reduceEmitChan) (Reduce_range c reduceEmitChan [])"
| "stmt ncpu mr (Reduce_range c emit received) =
     Recv c (\<lambda>m. case m of Some kv \<Rightarrow> Reduce_range c emit (received @ [kv])
                        | None \<Rightarrow> Reduce_emit emit (Reduce mr received))"
| "stmt ncpu mr (Reduce_emit emit (kv # kvs)) = Send emit kv (Reduce_emit emit kvs)"
| "stmt ncpu mr (Reduce_emit emit []) = SendSig reduceSignals exited"
| "stmt ncpu mr performMapping_newCloserChan =
     Go (newCloserChan mapEmitChan (of_nat (ncpu * 4)) mapSignals) (performMapping_go 0)"
| "stmt ncpu mr (performMapping_go i) =
     (if i < ncpu * 4 then Go (mapper_range (mapChans i)) (performMapping_go (Suc i))
      else Go (Input_send (Input mr)) (performMapping_range 0))"
| "stmt ncpu mr (performMapping_range idx) = range_Input idx"
| "stmt ncpu mr (performMapping_send idx kv) =
     (case mapIndex ncpu idx of
        None \<Rightarrow> Panic
      | Some i \<Rightarrow> Send (mapChans i) kv (performMapping_range (idx + 1)))"
| "stmt ncpu mr (performMapping_Close i) =
     (if i < ncpu * 4 then Close (mapChans i) (performMapping_Close (Suc i)) else Exit)"
| "stmt ncpu mr (mapper_range c) = range_in c"
| "stmt ncpu mr (mapper_Map c kv) =
     Mark (Map_call kv mapEmitChan) (Map_emit c mapEmitChan (Map mr kv))"
| "stmt ncpu mr (Map_emit c emit (kv # kvs)) = Send emit kv (Map_emit c emit kvs)"
| "stmt ncpu mr (Map_emit c emit []) = range_in c"
| "stmt ncpu mr mapper_signal = SendSig mapSignals exited"
| "stmt ncpu mr (Input_send (kv # kvs)) = Send inputChan kv (Input_send kvs)"
| "stmt ncpu mr (Input_send []) = Close inputChan exited"
| "stmt ncpu mr exited = Exit"

section \<open>One goroutine against its environment\<close>

text \<open>
  What a goroutine does is fixed by what it receives. \<open>solo\<close> runs one goroutine
  alone against a \<open>feed\<close>: for every channel the records that arrive on it
  (\<open>inbox\<close>), whether the channel is closed once they are taken (\<open>closing\<close>), and
  the number of completion signals that arrive on it (\<open>tokens\<close>); every send of the
  goroutine finds a receiver. The result is the sequence of operations the goroutine
  performs and the program point at which it ends, blocked at a reception, finished,
  or stopped by the bound \<open>fuel\<close> on the number of steps.
\<close>

datatype ('p, 'e, 'i) event =
    Sent chan "'p identifiable"
  | Received chan "'p identifiable"
  | Drained chan
  | Signalled chan
  | Awaited chan
  | Closed chan
  | Started "('p, 'e, 'i) thread"
  | Marked "('p, 'e) mark"
  | Panicked

record 'p feed =
  inbox :: "chan \<Rightarrow> 'p identifiable list"
  closing :: "chan \<Rightarrow> bool"
  tokens :: "chan \<Rightarrow> nat"

definition and_then ::
  "('p, 'e, 'w::len word) event \<Rightarrow> ('p, 'e, 'w word) event list \<times> ('p, 'e, 'w word) thread \<Rightarrow>
   ('p, 'e, 'w word) event list \<times> ('p, 'e, 'w word) thread" where
  "and_then e r = (e # fst r, snd r)"

fun solo ::
  "nat \<Rightarrow> ('p, 'e) MapReducer \<Rightarrow> nat \<Rightarrow> 'p feed \<Rightarrow> ('p, 'e, 'w::len word) thread \<Rightarrow>
   ('p, 'e, 'w word) event list \<times> ('p, 'e, 'w word) thread" where
  "solo ncpu mr 0 w t = ([], t)"
| "solo ncpu mr (Suc fuel) w t =
     (case stmt ncpu mr t of
        Send c v t' \<Rightarrow> and_then (Sent c v) (solo ncpu mr fuel w t')
      | Recv c k \<Rightarrow>
          (case inbox w c of
             v # vs \<Rightarrow>
               and_then (Received c v)
                 (solo ncpu mr fuel (w\<lparr>inbox := (inbox w)(c := vs)\<rparr>) (k (Some v)))
           | [] \<Rightarrow>
               if closing w c then and_then (Drained c) (solo ncpu mr fuel w (k None))
               else ([], t))
      | SendSig c t' \<Rightarrow> and_then (Signalled c) (solo ncpu mr fuel w t')
      | RecvSig c t' \<Rightarrow>
          (if 0 < tokens w c
           then and_then (Awaited c)
                  (solo ncpu mr fuel (w\<lparr>tokens := (tokens w)(c := tokens w c - 1)\<rparr>) t')
           else if closing w c then and_then (Drained c) (solo ncpu mr fuel w t')
           else ([], t))
      | Close c t' \<Rightarrow> and_then (Closed c) (solo ncpu mr fuel w t')
      | Go u t' \<Rightarrow> and_then (Started u) (solo ncpu mr fuel w t')
      | Mark m t' \<Rightarrow> and_then (Marked m) (solo ncpu mr fuel w t')
      | Panic \<Rightarrow> ([Panicked], t)
      | Exit \<Rightarrow> ([], t))"

definition silent :: "'p feed" where
  "silent = \<lparr>inbox = (\<lambda>c. []), closing = (\<lambda>c. False), tokens = (\<lambda>c. 0)\<rparr>"

text \<open>What a goroutine has received, in order: \<open>None\<close> for a closed channel.\<close>

fun heard :: "('p, 'e, 'w::len word) event list \<Rightarrow> 'p identifiable option list" where
  "heard [] = []"
| "heard (Received c v # es) = Some v # heard es"
| "heard (Drained c # es) = None # heard es"
| "heard (e # es) = heard es"

definition reception :: "chan \<Rightarrow> ('p, 'e, 'w::len word) event \<Rightarrow> bool" where
  "reception c e = (case e of Received c' v \<Rightarrow> c' = c | Drained c' \<Rightarrow> c' = c | _ \<Rightarrow> False)"

section \<open>A MapReducer\<close>

text \<open>
  A small MapReducer in the manner of \<open>OrderMapReducer\<close> of the package's test:
  the records carry a count, \<open>Map\<close> emits its record as it is, \<open>Reduce\<close> keeps one
  record for every identity and adds the counts (as \<open>OrderMapReducer.Reduce\<close> does
  with its \<open>memory\<close>), and \<open>Consume\<close> ranges over its channel and returns
  \<open>nil\<close>. Its input is the one of the scenario with the identities a, a and b.
\<close>

fun remember :: "nat identifiable list \<Rightarrow> nat identifiable \<Rightarrow> nat identifiable list" where
  "remember [] kv = [kv]"
| "remember (m # memory) kv =
     (if ID m = ID kv then Identifiable (ID m) (payload m + payload kv) # memory
      else m # remember memory kv)"

definition counting :: "(nat, string) MapReducer" where
  "counting =
     \<lparr>Input = [Identifiable ''a'' 1, Identifiable ''a'' 2, Identifiable ''b'' 5],
      Map = (\<lambda>kv. [kv]),
      Reduce = foldl remember [],
      Consume = (\<lambda>h. if None \<in> set h then Return None else Receive)\<rparr>"

text \<open>The same with a \<open>Consume\<close> that returns an error once its channel is closed.\<close>

definition failing :: "(nat, string) MapReducer" where
  "failing = counting\<lparr>Consume := (\<lambda>h. if None \<in> set h then Return (Some ''sentinel'') else Receive)\<rparr>"

section \<open>All goroutines together\<close>

text \<open>
  Every \<open>go\<close> statement of the package runs once for each channel it serves, so the
  goroutines of one call are named by what they run: the caller's goroutine
  (\<open>caller\<close>), \<open>performReducing\<close>, \<open>performMapping\<close>, the closer of a channel, the
  worker that reads a channel, and the goroutine behind \<open>Input()\<close>.
\<close>

datatype goroutine =
    caller
  | reducing
  | mapping
  | closer chan
  | worker chan
  | producer
  | unnamed

fun name :: "('p, 'e, 'w::len word) thread \<Rightarrow> goroutine" where
  "name performReducing_newCloserChan = reducing"
| "name performMapping_newCloserChan = mapping"
| "name (closer_recv kvc sz signals ctr) = closer kvc"
| "name (reducer_Reduce c) = worker c"
| "name (mapper_range c) = worker c"
| "name (Input_send kvs) = producer"
| "name _ = unnamed"

text \<open>
  The state of one call: the program point of every goroutine started so far, the
  closed channels, and whether the program has panicked.
\<close>

record ('p, 'e, 'i) state =
  pool :: "goroutine \<Rightarrow> ('p, 'e, 'i) thread option"
  closed :: "chan set"
  panicked :: bool

definition init :: "('p, 'e, 'w::len word) state" where
  "init = \<lparr>pool = (\<lambda>g. None)(caller \<mapsto> MapReduce_go_performReducing),
            closed = {}, panicked = False\<rparr>"

text \<open>
  \<open>fire ncpu mr s g h\<close> is one step of goroutine \<open>g\<close>, as Go defines the
  operations on unbuffered channels:
  \<^item> a send and a reception on the same open channel happen together (\<open>g\<close> sends,
    \<open>h\<close> receives); a send on a closed channel panics;
  \<^item> a reception from a closed channel returns at once;
  \<^item> closing a closed channel panics;
  \<^item> \<open>go\<close> adds a goroutine; a panic stops everything.
  \<open>None\<close>: \<open>g\<close> cannot take this step now.
\<close>

definition fire ::
  "nat \<Rightarrow> ('p, 'e) MapReducer \<Rightarrow> ('p, 'e, 'w::len word) state \<Rightarrow> goroutine \<Rightarrow> goroutine \<Rightarrow>
   (('p, 'e, 'w word) event \<times> ('p, 'e, 'w word) state) option" where
  "fire ncpu mr s g h =
     (if panicked s then None
      else case pool s g of
        None \<Rightarrow> None
      | Some t \<Rightarrow>
         (case stmt ncpu mr t of
            Send c v t' \<Rightarrow>
              if c \<in> closed s then Some (Panicked, s\<lparr>panicked := True\<rparr>)
              else (case pool s h of
                      None \<Rightarrow> None
                    | Some u \<Rightarrow>
                       (case stmt ncpu mr u of
                          Recv c' k \<Rightarrow>
                            if c' = c \<and> h \<noteq> g
                            then Some (Sent c v,
                                   s\<lparr>pool := (pool s)(g \<mapsto> t', h \<mapsto> k (Some v))\<rparr>)
                            else None
                        | _ \<Rightarrow> None))
          | Recv c k \<Rightarrow>
              if c \<in> closed s then Some (Drained c, s\<lparr>pool := (pool s)(g \<mapsto> k None)\<rparr>)
              else None
          | SendSig c t' \<Rightarrow>
              if c \<in> closed s then Some (Panicked, s\<lparr>panicked := True\<rparr>)
              else (case pool s h of
                      None \<Rightarrow> None
                    | Some u \<Rightarrow>
                       (case stmt ncpu mr u of
                          RecvSig c' u' \<Rightarrow>
                            if c' = c \<and> h \<noteq> g
                            then Some (Signalled c, s\<lparr>pool := (pool s)(g \<mapsto> t', h \<mapsto> u')\<rparr>)
                            else None
                        | _ \<Rightarrow> None))
          | RecvSig c t' \<Rightarrow>
              if c \<in> closed s then Some (Drained c, s\<lparr>pool := (pool s)(g \<mapsto> t')\<rparr>)
              else None
          | Close c t' \<Rightarrow>
              if c \<in> closed s then Some (Panicked, s\<lparr>panicked := True\<rparr>)
              else Some (Closed c,
                     s\<lparr>pool := (pool s)(g \<mapsto> t'), closed := insert c (closed s)\<rparr>)
          | Go u t' \<Rightarrow>
              (case pool s (name u) of
                 None \<Rightarrow> Some (Started u, s\<lparr>pool := (pool s)(g \<mapsto> t', name u \<mapsto> u)\<rparr>)
               | Some _ \<Rightarrow> None)
          | Mark m t' \<Rightarrow> Some (Marked m, s\<lparr>pool := (pool s)(g \<mapsto> t')\<rparr>)
          | Panic \<Rightarrow> Some (Panicked, s\<lparr>panicked := True\<rparr>)
          | Exit \<Rightarrow> None))"

text \<open>
  \<open>run ncpu mr tr s\<close>: the call of \<open>MapReduce mr\<close> on a machine with \<open>ncpu\<close>
  processors can reach state \<open>s\<close>, and \<open>tr\<close> is what happened on the way, in order.
  Any goroutine that can take a step may take the next one.
\<close>

inductive run ::
  "nat \<Rightarrow> ('p, 'e) MapReducer \<Rightarrow> ('p, 'e, 'w::len word) event list \<Rightarrow> ('p, 'e, 'w word) state \<Rightarrow> bool"
  for ncpu :: nat and mr :: "('p, 'e) MapReducer" where
  start: "run ncpu mr [] init"
| step: "run ncpu mr tr s \<Longrightarrow> fire ncpu mr s g h = Some (e, s') \<Longrightarrow> run ncpu mr (tr @ [e]) s'"

text \<open>
  \<open>exec\<close> follows a schedule, the list of the goroutines that take the steps (each
  with the receiver, for a send): the runs are what the schedules give.
\<close>

fun exec ::
  "nat \<Rightarrow> ('p, 'e) MapReducer \<Rightarrow> (goroutine \<times> goroutine) list \<Rightarrow>
   ('p, 'e, 'w::len word) event list \<times> ('p, 'e, 'w word) state \<Rightarrow> (('p, 'e, 'w word) event list \<times> ('p, 'e, 'w word) state) option" where
  "exec ncpu mr [] r = Some r"
| "exec ncpu mr ((g, h) # sched) (tr, s) =
     (case fire ncpu mr s g h of
        None \<Rightarrow> None
      | Some (e, s') \<Rightarrow> exec ncpu mr sched (tr @ [e], s'))"

text \<open>
  The number of receptions after which the counter of a closer, now at \<open>ctr\<close>, meets
  the target \<open>sz\<close>: the counter is compared after it is incremented, and it wraps
  around.
\<close>

definition distance :: "'w::len word \<Rightarrow> 'w word \<Rightarrow> nat" where
  "distance sz ctr = (if sz = ctr then 2 ^ LENGTH('w) else unat (sz - ctr))"

text \<open>
  What the first \<open>n\<close> receptions from channel \<open>c\<close> return under a feed: the records
  that arrive, in order, and then, if the channel is closed, \<open>None\<close> every time
  (\<open>deliveries\<close>); and the reception as an event (\<open>arrival\<close>).
\<close>

definition deliveries :: "'p feed \<Rightarrow> chan \<Rightarrow> nat \<Rightarrow> 'p identifiable option list" where
  "deliveries w c n =
     map Some (take n (inbox w c)) @
     (if closing w c then replicate (n - length (inbox w c)) None else [])"

definition arrival :: "chan \<Rightarrow> 'p identifiable option \<Rightarrow> ('p, 'e, 'i) event" where
  "arrival c m = (case m of Some v \<Rightarrow> Received c v | None \<Rightarrow> Drained c)"

lemma fst_and_then [simp]: "fst (and_then e r) = e # fst r"
  by (simp add: and_then_def)

lemma snd_and_then [simp]: "snd (and_then e r) = snd r"
  by (simp add: and_then_def)

lemma and_then_pair [simp]: "and_then e (es, t) = (e # es, t)"
  by (simp add: and_then_def)

lemma distance_pos: "0 < distance sz ctr"
  by (auto simp: distance_def unat_gt_0)

lemma distance_one: "distance sz ctr = 1 \<longleftrightarrow> ctr + 1 = sz"
proof (cases "sz = ctr")
  case True
  then show ?thesis
    by (simp add: distance_def)
next
  case False
  have "unat (sz - ctr) = 1 \<longleftrightarrow> sz - ctr = 1"
    by (metis unat_1 word_eq_iff_unsigned)
  also have "\<dots> \<longleftrightarrow> ctr + 1 = sz" by (metis diff_add_cancel add_diff_cancel_left')
  finally show ?thesis using False by (simp add: distance_def)
qed

lemma distance_Suc:
  assumes "ctr + 1 \<noteq> sz"
  shows "distance sz ctr = Suc (distance sz (ctr + 1))"
proof (cases "sz = ctr")
  case True
  have "unat (- 1 :: 'a word) = 2 ^ LENGTH('a) - 1"
    by (simp add: unsigned_minus_1_eq_mask mask_eq_exp_minus_1)
  with True assms show ?thesis by (simp add: distance_def)
next
  case False
  then have nz: "sz - ctr \<noteq> 0" by simp
  have "unat (sz - ctr - 1) = unat (sz - ctr) - 1"
    using nz by (rule unat_minus_one)
  moreover have "sz - (ctr + 1) = sz - ctr - 1" by simp
  ultimately have "unat (sz - (ctr + 1)) = unat (sz - ctr) - 1"
    by (simp only:)
  moreover have "0 < unat (sz - ctr)" using nz by (simp add: unat_gt_0)
  ultimately show ?thesis using False assms by (auto simp: distance_def)
qed

lemma solo_closer_Close:
  "solo ncpu mr (Suc (Suc fuel)) w (closer_Close kvc sg) = ([Closed kvc, Closed sg], exited)"
  by (cases fuel) simp_all

lemma solo_closer_recv:
  assumes "\<not> closing w sg" and "tokens w sg = k"
    and "min k (distance sz ctr) + 2 \<le> fuel"
  shows "solo ncpu mr fuel w (closer_recv kvc sz sg ctr) =
    (replicate (min k (distance sz ctr)) (Awaited sg) @
       (if distance sz ctr \<le> k then [Closed kvc, Closed sg] else []),
     if distance sz ctr \<le> k then exited else closer_recv kvc sz sg (ctr + of_nat k))"
  using assms
proof (induction k arbitrary: w ctr fuel)
  case 0
  then obtain f where f: "fuel = Suc f" by (cases fuel) auto
  from 0 distance_pos[of sz ctr] show ?case by (simp add: f)
next
  case (Suc k)
  then obtain f where f: "fuel = Suc f" by (cases fuel) auto
  let ?w = "w\<lparr>tokens := (tokens w)(sg := tokens w sg - 1)\<rparr>"
  show ?case
  proof (cases "ctr + 1 = sz")
    case True
    then have one: "distance sz ctr = 1" using distance_one[of sz ctr] by simp
    with Suc.prems obtain f' where f': "f = Suc (Suc f')"
      by (cases f; cases "f - 1") (auto simp: f)
    from True Suc.prems show ?thesis
      by (simp add: f f' one del: solo.simps(2) add: solo.simps(2)[of _ _ "Suc (Suc f')"] solo_closer_Close)
  next
    case False
    then have d: "distance sz ctr = Suc (distance sz (ctr + 1))" by (rule distance_Suc)
    have "solo ncpu mr f ?w (closer_recv kvc sz sg (ctr + 1)) =
      (replicate (min k (distance sz (ctr + 1))) (Awaited sg) @
         (if distance sz (ctr + 1) \<le> k then [Closed kvc, Closed sg] else []),
       if distance sz (ctr + 1) \<le> k then exited else closer_recv kvc sz sg (ctr + 1 + of_nat k))"
      using Suc.prems d by (intro Suc.IH) (auto simp: f)
    then show ?thesis using Suc.prems False
      by (simp add: f d add.commute add.left_commute)
  qed
qed

lemma solo_closer_waits:
  "\<not> closing w sg \<Longrightarrow> tokens w sg < distance sz ctr \<Longrightarrow>
   set (fst (solo ncpu mr fuel w (closer_recv kvc sz sg ctr))) \<subseteq> {Awaited sg} \<and>
   (\<exists>ctr'. snd (solo ncpu mr fuel w (closer_recv kvc sz sg ctr)) = closer_recv kvc sz sg ctr')"
proof (induction fuel arbitrary: w ctr)
  case 0
  then show ?case by simp
next
  case (Suc fuel)
  show ?case
  proof (cases "tokens w sg")
    case 0
    with Suc.prems show ?thesis by simp
  next
    case (Suc k)
    let ?w = "w\<lparr>tokens := (tokens w)(sg := tokens w sg - 1)\<rparr>"
    from Suc Suc.prems have "distance sz ctr \<noteq> 1" by simp
    then have ne: "ctr + 1 \<noteq> sz" using distance_one[of sz ctr] by simp
    then have d: "distance sz ctr = Suc (distance sz (ctr + 1))" by (rule distance_Suc)
    have "set (fst (solo ncpu mr fuel ?w (closer_recv kvc sz sg (ctr + 1)))) \<subseteq> {Awaited sg} \<and>
      (\<exists>ctr'. snd (solo ncpu mr fuel ?w (closer_recv kvc sz sg (ctr + 1))) = closer_recv kvc sz sg ctr')"
      using Suc.prems Suc d by (intro Suc.IH) auto
    with Suc ne show ?thesis by simp
  qed
qed

lemma distance_zero: "distance (0 :: 'w::len word) 0 = 2 ^ LENGTH('w)"
  by (simp add: distance_def)


lemma unat_of_sint:
  assumes "0 <s (sz :: 'w::len word)"
  shows "unat sz = nat (sint sz)"
proof -
  from assms have pos: "0 < sint sz" by (simp add: word_sless_alt)
  have "sint sz < 2 ^ (LENGTH('w) - 1)" by (rule sint_lt)
  also have "(2 :: int) ^ (LENGTH('w) - 1) \<le> 2 ^ LENGTH('w)" by (rule power_increasing) simp_all
  finally have lt: "sint sz < 2 ^ LENGTH('w)" .
  have "uint sz = uint (word_of_int (sint sz) :: 'w word)" by simp
  also have "\<dots> = take_bit LENGTH('w) (sint sz)" by (rule uint_word_of_int_eq)
  also have "\<dots> = sint sz" using pos lt by (intro take_bit_int_eq_self) simp_all
  finally have "nat (uint sz) = nat (sint sz)" by (simp only:)
  then show ?thesis by (simp only: nat_uint_eq)
qed

lemma distance_positive: "0 <s sz \<Longrightarrow> distance sz 0 = nat (sint sz)"
  using unat_of_sint[of sz] by (auto simp: distance_def)

text \<open>
  C2 (amended). For every channel \<open>kvc\<close> and every target count \<open>size\<close> of at least
  one, the goroutine of \<open>newCloserChan(kvc, size)\<close>, given the completion signals that
  arrive on its signal channel (which nobody else closes), receives the first \<open>size\<close>
  of them and no more; with fewer than \<open>size\<close> signals it closes nothing and waits at
  \<open><-signals\<close>; with \<open>size\<close> signals or more it closes \<open>kvc\<close> once, right after the
  \<open>size\<close>-th signal, then closes its signal channel, and ends.
\<close>

theorem closer_closes_after_size:
  assumes "0 <s sz" and "\<not> closing w signals"
    and "min (tokens w signals) (nat (sint sz)) + 2 \<le> fuel"
  shows "solo ncpu mr fuel w (newCloserChan kvc sz signals) =
    (replicate (min (tokens w signals) (nat (sint sz))) (Awaited signals) @
       (if nat (sint sz) \<le> tokens w signals then [Closed kvc, Closed signals] else []),
     if nat (sint sz) \<le> tokens w signals then exited
     else closer_recv kvc sz signals (of_nat (tokens w signals)))"
  using solo_closer_recv[of w signals "tokens w signals" sz 0 fuel ncpu mr kvc] assms
  by (simp add: newCloserChan_def distance_positive)

text \<open>
  With target 2 and three signals waiting, two are received and the channel is closed
  once; with target 2 and one signal, nothing is closed.
\<close>

theorem closer_closes_after_size_witness:
  "solo 1 counting 4 (silent\<lparr>tokens := (\<lambda>c. 3)\<rparr>)
     (newCloserChan mapEmitChan (2 :: 64 word) mapSignals) =
     ([Awaited mapSignals, Awaited mapSignals, Closed mapEmitChan, Closed mapSignals], exited) \<and>
   solo 1 counting 3 (silent\<lparr>tokens := (\<lambda>c. 1)\<rparr>)
     (newCloserChan mapEmitChan (2 :: 64 word) mapSignals) =
     ([Awaited mapSignals], closer_recv mapEmitChan 2 mapSignals 1)"
  using closer_closes_after_size[of "2 :: 64 word" "silent\<lparr>tokens := (\<lambda>c. 3)\<rparr>" mapSignals 4 1 counting mapEmitChan]
    closer_closes_after_size[of "2 :: 64 word" "silent\<lparr>tokens := (\<lambda>c. 1)\<rparr>" mapSignals 3 1 counting mapEmitChan]
  by (simp add: silent_def newCloserChan_def word_sless_alt eval_nat_numeral)

text \<open>
  C2 as stated, for every target count, fails at \<open>size = 0\<close>: having received exactly
  zero signals the goroutine has not closed the channel, and it receives a further
  signal instead of closing.
\<close>

theorem closer_size_zero_counterexample:
  "solo 1 counting 5 silent (newCloserChan mapEmitChan (0 :: 64 word) mapSignals) =
     ([], closer_recv mapEmitChan 0 mapSignals 0) \<and>
   solo 1 counting 5 (silent\<lparr>tokens := (\<lambda>c. 1)\<rparr>)
     (newCloserChan mapEmitChan (0 :: 64 word) mapSignals) =
     ([Awaited mapSignals], closer_recv mapEmitChan 0 mapSignals 1)"
  by (simp add: silent_def newCloserChan_def eval_nat_numeral)

text \<open>
  C10 (amended). For every channel \<open>kvc\<close>, the goroutine of \<open>newCloserChan(kvc, 0)\<close>
  does not close \<open>kvc\<close> (nor its signal channel) as long as fewer than \<open>2 ^ W\<close>
  completion signals arrive on its signal channel (which nobody else closes), \<open>W\<close>
  being the number of bits of an \<open>int\<close>: it compares \<open>ctr\<close> with the target only
  after a reception, so it stays in its loop at \<open><-signals\<close>, however long it runs.
  The target 0 is met when \<open>ctr\<close> has wrapped around: given \<open>2 ^ W\<close> signals or
  more, the goroutine receives \<open>2 ^ W\<close> of them, closes \<open>kvc\<close> and its signal
  channel, and ends.
\<close>

theorem closer_size_zero_closes_on_wrap:
  fixes kvc signals :: chan and w :: "'p feed" and mr :: "('p, 'e) MapReducer"
  assumes "\<not> closing w signals"
  shows "(tokens w signals < 2 ^ LENGTH('w::len) \<longrightarrow>
      Closed kvc \<notin> set (fst (solo ncpu mr fuel w (newCloserChan kvc (0 :: 'w word) signals))) \<and>
      Closed signals \<notin> set (fst (solo ncpu mr fuel w (newCloserChan kvc (0 :: 'w word) signals))) \<and>
      (\<exists>ctr. snd (solo ncpu mr fuel w (newCloserChan kvc (0 :: 'w word) signals)) =
         closer_recv kvc 0 signals ctr)) \<and>
    (2 ^ LENGTH('w) \<le> tokens w signals \<longrightarrow> 2 ^ LENGTH('w) + 2 \<le> fuel' \<longrightarrow>
      solo ncpu mr fuel' w (newCloserChan kvc (0 :: 'w word) signals) =
        (replicate (2 ^ LENGTH('w)) (Awaited signals) @ [Closed kvc, Closed signals], exited))"
proof (intro conjI impI)
  assume "tokens w signals < 2 ^ LENGTH('w)"
  then have "tokens w signals < distance (0 :: 'w word) 0" by (simp add: distance_zero)
  from solo_closer_waits[OF assms this, of ncpu mr fuel kvc]
  show "Closed kvc \<notin> set (fst (solo ncpu mr fuel w (newCloserChan kvc (0 :: 'w word) signals)))"
    and "Closed signals \<notin> set (fst (solo ncpu mr fuel w (newCloserChan kvc (0 :: 'w word) signals)))"
    and "\<exists>ctr. snd (solo ncpu mr fuel w (newCloserChan kvc (0 :: 'w word) signals)) =
         closer_recv kvc 0 signals ctr"
    by (auto simp: newCloserChan_def)
next
  assume "2 ^ LENGTH('w) \<le> tokens w signals" and "2 ^ LENGTH('w) + 2 \<le> fuel'"
  with solo_closer_recv[OF assms refl, of "0 :: 'w word" 0 fuel' ncpu mr kvc]
  show "solo ncpu mr fuel' w (newCloserChan kvc (0 :: 'w word) signals) =
        (replicate (2 ^ LENGTH('w)) (Awaited signals) @ [Closed kvc, Closed signals], exited)"
    by (simp add: newCloserChan_def distance_zero min_def)
qed

text \<open>
  On a 64-bit platform: with five signals nothing is closed, with \<open>2 ^ 64\<close> signals the
  channel is closed after the last of them.
\<close>

theorem closer_size_zero_closes_on_wrap_witness:
  "Closed mapEmitChan \<notin> set (fst (solo 1 counting 9 (silent\<lparr>tokens := (\<lambda>c. 5)\<rparr>)
      (newCloserChan mapEmitChan (0 :: 64 word) mapSignals))) \<and>
   solo 1 counting (2 ^ 64 + 2) (silent\<lparr>tokens := (\<lambda>c. 2 ^ 64)\<rparr>)
      (newCloserChan mapEmitChan (0 :: 64 word) mapSignals) =
     (replicate (2 ^ 64) (Awaited mapSignals) @ [Closed mapEmitChan, Closed mapSignals], exited)"
  using closer_size_zero_closes_on_wrap[of "silent\<lparr>tokens := (\<lambda>c. 5)\<rparr>" mapSignals
      mapEmitChan 1 counting 9 0, where ?'w = 64]
    closer_size_zero_closes_on_wrap[of "silent\<lparr>tokens := (\<lambda>c. 2 ^ 64)\<rparr>" mapSignals
      mapEmitChan 1 counting 0 "2 ^ 64 + 2", where ?'w = 64]
  by (simp add: silent_def)

text \<open>
  C10 as stated fails on a 64-bit platform at \<open>2 ^ 64\<close> signals: the goroutine of
  \<open>newCloserChan(mapEmitChan, 0)\<close> closes \<open>mapEmitChan\<close>.
\<close>

theorem closer_size_zero_closes_counterexample:
  "Closed mapEmitChan \<in> set (fst (solo 1 counting (2 ^ 64 + 2) (silent\<lparr>tokens := (\<lambda>c. 2 ^ 64)\<rparr>)
      (newCloserChan mapEmitChan (0 :: 64 word) mapSignals)))"
  using solo_closer_recv[of "silent\<lparr>tokens := (\<lambda>c. 2 ^ 64)\<rparr>" mapSignals "2 ^ 64"
      "0 :: 64 word" 0 "2 ^ 64 + 2" 1 counting mapEmitChan]
  by (simp add: silent_def newCloserChan_def distance_zero)




lemma solo_Map_emit:
  assumes "solo ncpu mr fuel w (mapper_range c) = (es, exited)"
  shows "solo ncpu mr (length ys + fuel) w (Map_emit c emit ys) = (map (Sent emit) ys @ es, exited)"
proof (induction ys)
  case Nil
  from assms show ?case
    by (cases fuel) (auto simp: range_in_def split: list.splits if_splits)
next
  case (Cons y ys)
  then show ?case by simp
qed

lemma solo_mapper_range_Cons:
  "inbox w c = kv # xs \<Longrightarrow>
   solo ncpu mr (Suc (Suc fuel)) w (mapper_range c) =
     and_then (Received c kv) (and_then (Marked (Map_call kv mapEmitChan))
       (solo ncpu mr fuel (w\<lparr>inbox := (inbox w)(c := xs)\<rparr>)
          (Map_emit c mapEmitChan (Map mr kv))))"
  by (simp add: range_in_def)

lemma solo_mapper_range:
  fixes mr :: "('p, 'e) MapReducer"
  assumes "inbox w c = xs" and "closing w c"
  shows "solo ncpu mr (sum_list (map (\<lambda>kv. length (Map mr kv) + 2) xs) + 3) w
      (mapper_range c :: ('p, 'e, 'w::len word) thread) =
    (concat (map (\<lambda>kv. Received c kv # Marked (Map_call kv mapEmitChan) #
                        map (Sent mapEmitChan) (Map mr kv)) xs) @
       [Drained c, Signalled mapSignals], exited)"
  using assms
proof (induction xs arbitrary: w)
  case Nil
  then show ?case by (simp add: range_in_def eval_nat_numeral)
next
  case (Cons kv xs)
  let ?w = "w\<lparr>inbox := (inbox w)(c := xs)\<rparr>"
  let ?n = "sum_list (map (\<lambda>kv. length (Map mr kv) + 2) xs) + 3"
  have "solo ncpu mr ?n ?w (mapper_range c :: ('p, 'e, 'w word) thread) =
    (concat (map (\<lambda>kv. Received c kv # Marked (Map_call kv mapEmitChan) #
                        map (Sent mapEmitChan) (Map mr kv)) xs) @
       [Drained c, Signalled mapSignals], exited)"
    using Cons.prems by (intro Cons.IH) auto
  from solo_Map_emit[OF this, of "Map mr kv" mapEmitChan]
  have emit: "solo ncpu mr (length (Map mr kv) + ?n) ?w
      (Map_emit c mapEmitChan (Map mr kv) :: ('p, 'e, 'w word) thread) =
    (map (Sent mapEmitChan) (Map mr kv) @
     concat (map (\<lambda>kv. Received c kv # Marked (Map_call kv mapEmitChan) #
                        map (Sent mapEmitChan) (Map mr kv)) xs) @
       [Drained c, Signalled mapSignals], exited)" .
  have fuel: "sum_list (map (\<lambda>kv. length (Map mr kv) + 2) (kv # xs)) + 3 =
    Suc (Suc (length (Map mr kv) + ?n))" by simp
  show ?case
    unfolding fuel
    by (subst solo_mapper_range_Cons[OF Cons.prems(1)], subst emit, simp)
qed


lemma reception_simps [simp]:
  "reception c (Received c' v) = (c' = c)"
  "reception c (Drained c') = (c' = c)"
  "reception c (Sent c' v) = False"
  "reception c (Marked m) = False"
  "reception c (Started t) = False"
  by (simp_all add: reception_def)

lemma solo_Consume_body:
  fixes mr :: "('p, 'e) MapReducer" and t :: "('p, 'e, 'w::len word) thread"
  assumes "solo ncpu mr fuel w (Consume_body h) = (es, t)"
    and "Marked (MapReduce_returns e) \<in> set es"
  shows "\<exists>rs. es = rs @ [Marked (Consume_returns e), Marked (MapReduce_returns e)] \<and>
           list_all (reception reduceEmitChan) rs \<and>
           Consume mr (h @ heard rs) = Return e \<and> t = exited"
  using assms
proof (induction fuel arbitrary: w h es t)
  case 0
  then show ?case by simp
next
  case (Suc fuel)
  show ?case
  proof (cases "Consume mr h")
    case Receive
    show ?thesis
    proof (cases "inbox w reduceEmitChan")
      case Nil
      show ?thesis
      proof (cases "closing w reduceEmitChan")
        case True
        obtain es' and t' :: "('p, 'e, 'w word) thread"
          where r: "solo ncpu mr fuel w (Consume_body (h @ [None])) = (es', t')"
          by (cases "solo ncpu mr fuel w (Consume_body (h @ [None]) :: ('p, 'e, 'w word) thread)")
        with Suc.prems Receive Nil True have es: "es = Drained reduceEmitChan # es'" "t = t'"
          by auto
        with Suc.prems have "Marked (MapReduce_returns e) \<in> set es'" by auto
        from Suc.IH[OF r this] obtain rs where
          "es' = rs @ [Marked (Consume_returns e), Marked (MapReduce_returns e)]"
          "list_all (reception reduceEmitChan) rs"
          "Consume mr ((h @ [None]) @ heard rs) = Return e" "t' = exited" by blast
        then show ?thesis using es
          by (intro exI[of _ "Drained reduceEmitChan # rs"]) simp
      next
        case False
        with Suc.prems Receive Nil show ?thesis by auto
      qed
    next
      case (Cons v vs)
      let ?w = "w\<lparr>inbox := (inbox w)(reduceEmitChan := vs)\<rparr>"
      obtain es' and t' :: "('p, 'e, 'w word) thread"
        where r: "solo ncpu mr fuel ?w (Consume_body (h @ [Some v])) = (es', t')"
        by (cases "solo ncpu mr fuel ?w (Consume_body (h @ [Some v]) :: ('p, 'e, 'w word) thread)")
      with Suc.prems Receive Cons have es: "es = Received reduceEmitChan v # es'" "t = t'"
        by auto
      with Suc.prems have "Marked (MapReduce_returns e) \<in> set es'" by auto
      from Suc.IH[OF r this] obtain rs where
        "es' = rs @ [Marked (Consume_returns e), Marked (MapReduce_returns e)]"
        "list_all (reception reduceEmitChan) rs"
        "Consume mr ((h @ [Some v]) @ heard rs) = Return e" "t' = exited" by blast
      then show ?thesis using es
        by (intro exI[of _ "Received reduceEmitChan v # rs"]) simp
    qed
  next
    case (Return e')
    show ?thesis
    proof (cases fuel)
      case 0
      with Suc.prems Return show ?thesis by auto
    next
      case (Suc f)
      with Suc.prems Return have "es = [Marked (Consume_returns e'), Marked (MapReduce_returns e')]"
        "t = exited" by (cases f; auto)+
      with Suc.prems(2) Return show ?thesis by (intro exI[of _ "[]"]) auto
    qed
  qed
qed

lemma solo_Consume_Return:
  "Consume mr h = Return e \<Longrightarrow>
   solo ncpu mr (Suc (Suc fuel)) w (Consume_body h) =
     ([Marked (Consume_returns e), Marked (MapReduce_returns e)], exited)"
  by (cases fuel) simp_all

lemma deliveries_0 [simp]: "deliveries w c 0 = []"
  by (simp add: deliveries_def)

lemma deliveries_Suc_Cons:
  "inbox w c = v # vs \<Longrightarrow>
   deliveries w c (Suc n) = Some v # deliveries (w\<lparr>inbox := (inbox w)(c := vs)\<rparr>) c n"
  by (simp add: deliveries_def)

lemma deliveries_Suc_Nil:
  "inbox w c = [] \<Longrightarrow> closing w c \<Longrightarrow> deliveries w c (Suc n) = None # deliveries w c n"
  by (simp add: deliveries_def)

lemma solo_Consume_returns:
  fixes mr :: "('p, 'e) MapReducer"
  assumes "n \<le> length (inbox w reduceEmitChan) \<or> closing w reduceEmitChan"
    and "\<forall>k<n. Consume mr (h @ deliveries w reduceEmitChan k) = Receive"
    and "Consume mr (h @ deliveries w reduceEmitChan n) = Return e"
    and "n + 2 \<le> fuel"
  shows "solo ncpu mr fuel w (Consume_body h :: ('p, 'e, 'w::len word) thread) =
    (map (arrival reduceEmitChan) (deliveries w reduceEmitChan n) @
       [Marked (Consume_returns e), Marked (MapReduce_returns e)], exited)"
  using assms
proof (induction n arbitrary: w h fuel)
  case 0
  then obtain f where f: "fuel = Suc (Suc f)" by (cases fuel; cases "fuel - 1") auto
  from 0 show ?case unfolding f by (simp add: solo_Consume_Return del: solo.simps)
next
  case (Suc n)
  then obtain f where f: "fuel = Suc f" by (cases fuel) auto
  from Suc.prems(2) have rcv: "Consume mr h = Receive"
    using deliveries_0[of w reduceEmitChan] by (metis append_Nil2 zero_less_Suc)
  show ?case
  proof (cases "inbox w reduceEmitChan")
    case Nil
    with Suc.prems(1) have cl: "closing w reduceEmitChan" by simp
    note d = deliveries_Suc_Nil[OF Nil cl]
    have "solo ncpu mr f w (Consume_body (h @ [None]) :: ('p, 'e, 'w word) thread) =
      (map (arrival reduceEmitChan) (deliveries w reduceEmitChan n) @
         [Marked (Consume_returns e), Marked (MapReduce_returns e)], exited)"
    proof (rule Suc.IH)
      show "n \<le> length (inbox w reduceEmitChan) \<or> closing w reduceEmitChan" using cl by simp
      show "\<forall>k<n. Consume mr ((h @ [None]) @ deliveries w reduceEmitChan k) = Receive"
        using Suc.prems(2) d by (metis Suc_less_eq append.assoc append_Cons append_Nil)
      show "Consume mr ((h @ [None]) @ deliveries w reduceEmitChan n) = Return e"
        using Suc.prems(3) d by simp
      show "n + 2 \<le> f" using Suc.prems(4) f by simp
    qed
    then show ?thesis using rcv Nil cl by (simp add: f d arrival_def)
  next
    case (Cons v vs)
    let ?w = "w\<lparr>inbox := (inbox w)(reduceEmitChan := vs)\<rparr>"
    note d = deliveries_Suc_Cons[OF Cons]
    have "solo ncpu mr f ?w (Consume_body (h @ [Some v]) :: ('p, 'e, 'w word) thread) =
      (map (arrival reduceEmitChan) (deliveries ?w reduceEmitChan n) @
         [Marked (Consume_returns e), Marked (MapReduce_returns e)], exited)"
    proof (rule Suc.IH)
      show "n \<le> length (inbox ?w reduceEmitChan) \<or> closing ?w reduceEmitChan"
        using Suc.prems(1) Cons by auto
      show "\<forall>k<n. Consume mr ((h @ [Some v]) @ deliveries ?w reduceEmitChan k) = Receive"
        using Suc.prems(2) d by (metis Suc_less_eq append.assoc append_Cons append_Nil)
      show "Consume mr ((h @ [Some v]) @ deliveries ?w reduceEmitChan n) = Return e"
        using Suc.prems(3) d by simp
      show "n + 2 \<le> f" using Suc.prems(4) f by simp
    qed
    then show ?thesis using rcv Cons by (simp add: f d arrival_def)
  qed
qed

lemma solo_MapReduce:
  "solo ncpu mr (Suc (Suc (Suc fuel))) w MapReduce_go_performReducing =
     and_then (Started performReducing_newCloserChan)
       (and_then (Started performMapping_newCloserChan)
          (and_then (Marked (Consume_call reduceEmitChan))
             (solo ncpu mr fuel w (Consume_body []))))"
  by simp

lemma solo_MapReduce_short:
  "fuel \<le> 3 \<Longrightarrow>
   Marked (MapReduce_returns e) \<notin>
     set (fst (solo ncpu mr fuel w (MapReduce_go_performReducing :: ('p, 'e, 'w::len word) thread)))"
  by (cases fuel; cases "fuel - 1"; cases "fuel - 2"; cases "fuel - 3") auto

text \<open>
  C3. \<open>MapReduce\<close> returns exactly what \<open>Consume\<close> returns. Run from its first
  statement, on any number of processors and against anything that arrives on
  \<open>reduceEmitChan\<close>: if \<open>Consume\<close>, receiving what arrives, returns \<open>e\<close> at its
  \<open>n\<close>-th reception, then \<open>MapReduce\<close> starts \<open>performReducing\<close> and
  \<open>performMapping\<close>, calls \<open>Consume\<close> once, itself, with \<open>reduceEmitChan\<close>, does
  the \<open>n\<close> receptions of \<open>Consume\<close> and nothing else, and returns \<open>e\<close>. And there is
  no other source of a result: whenever \<open>MapReduce\<close> returns \<open>e'\<close>, in any run, this is
  what has happened, and \<open>Consume\<close> has returned \<open>e'\<close> on what it received.
\<close>

theorem MapReduce_returns_Consume_result:
  fixes mr :: "('p, 'e) MapReducer" and t :: "('p, 'e, 'w::len word) thread"
  shows
  "((n \<le> length (inbox w reduceEmitChan) \<or> closing w reduceEmitChan) \<longrightarrow>
    (\<forall>k<n. Consume mr (deliveries w reduceEmitChan k) = Receive) \<longrightarrow>
    Consume mr (deliveries w reduceEmitChan n) = Return e \<longrightarrow> n + 5 \<le> fuel \<longrightarrow>
    solo ncpu mr fuel w (MapReduce_go_performReducing :: ('p, 'e, 'w word) thread) =
      ([Started performReducing_newCloserChan, Started performMapping_newCloserChan,
        Marked (Consume_call reduceEmitChan)] @
       map (arrival reduceEmitChan) (deliveries w reduceEmitChan n) @
       [Marked (Consume_returns e), Marked (MapReduce_returns e)], exited)) \<and>
   (solo ncpu mr fuel' w' MapReduce_go_performReducing = (es, t) \<longrightarrow>
    Marked (MapReduce_returns e') \<in> set es \<longrightarrow>
    (\<exists>rs. es = [Started performReducing_newCloserChan, Started performMapping_newCloserChan,
                   Marked (Consume_call reduceEmitChan)] @ rs @
                  [Marked (Consume_returns e'), Marked (MapReduce_returns e')] \<and>
          list_all (reception reduceEmitChan) rs \<and>
          Consume mr (heard rs) = Return e' \<and> t = exited))"
proof (intro conjI impI)
  assume a: "n \<le> length (inbox w reduceEmitChan) \<or> closing w reduceEmitChan"
    "\<forall>k<n. Consume mr (deliveries w reduceEmitChan k) = Receive"
    "Consume mr (deliveries w reduceEmitChan n) = Return e" "n + 5 \<le> fuel"
  then obtain f where f: "fuel = Suc (Suc (Suc f))" and n: "n + 2 \<le> f"
    by (cases fuel; cases "fuel - 1"; cases "fuel - 2") auto
  have "solo ncpu mr f w (Consume_body [] :: ('p, 'e, 'w word) thread) =
    (map (arrival reduceEmitChan) (deliveries w reduceEmitChan n) @
       [Marked (Consume_returns e), Marked (MapReduce_returns e)], exited)"
    using a(1) _ _ n by (rule solo_Consume_returns) (simp_all add: a)
  then show "solo ncpu mr fuel w (MapReduce_go_performReducing :: ('p, 'e, 'w word) thread) =
      ([Started performReducing_newCloserChan, Started performMapping_newCloserChan,
        Marked (Consume_call reduceEmitChan)] @
       map (arrival reduceEmitChan) (deliveries w reduceEmitChan n) @
       [Marked (Consume_returns e), Marked (MapReduce_returns e)], exited)"
    unfolding f solo_MapReduce by simp
next
  assume r: "solo ncpu mr fuel' w' MapReduce_go_performReducing = (es, t)"
    and m: "Marked (MapReduce_returns e') \<in> set es"
  from r m solo_MapReduce_short[of fuel' e' ncpu mr w', where ?'w = 'w] have "3 < fuel'"
    by (cases "fuel' \<le> 3") auto
  then obtain f where f: "fuel' = Suc (Suc (Suc f))"
    by (cases fuel'; cases "fuel' - 1"; cases "fuel' - 2") auto
  obtain es' and t' :: "('p, 'e, 'w word) thread"
    where c: "solo ncpu mr f w' (Consume_body []) = (es', t')"
    by (cases "solo ncpu mr f w' (Consume_body [] :: ('p, 'e, 'w word) thread)")
  from r have es: "es = [Started performReducing_newCloserChan,
      Started performMapping_newCloserChan, Marked (Consume_call reduceEmitChan)] @ es'" "t = t'"
    unfolding f solo_MapReduce c by simp_all
  with m have "Marked (MapReduce_returns e') \<in> set es'" by auto
  from solo_Consume_body[OF c this] es
  show "\<exists>rs. es = [Started performReducing_newCloserChan, Started performMapping_newCloserChan,
                   Marked (Consume_call reduceEmitChan)] @ rs @
                  [Marked (Consume_returns e'), Marked (MapReduce_returns e')] \<and>
          list_all (reception reduceEmitChan) rs \<and>
          Consume mr (heard rs) = Return e' \<and> t = exited"
    by auto
qed

text \<open>
  Two processors, one record on \<open>reduceEmitChan\<close> before it is closed, and a
  \<open>Consume\<close> that returns a sentinel error when its channel is closed.
\<close>

theorem MapReduce_returns_Consume_result_witness:
  "solo 2 failing 7
     \<lparr>inbox = (\<lambda>c. if c = reduceEmitChan then [Identifiable ''a'' 3] else []),
      closing = (\<lambda>c. True), tokens = (\<lambda>c. 0)\<rparr>
     (MapReduce_go_performReducing :: (nat, string, 64 word) thread) =
     ([Started performReducing_newCloserChan, Started performMapping_newCloserChan,
       Marked (Consume_call reduceEmitChan),
       Received reduceEmitChan (Identifiable ''a'' 3), Drained reduceEmitChan,
       Marked (Consume_returns (Some ''sentinel'')), Marked (MapReduce_returns (Some ''sentinel''))],
      exited) \<and>
   Consume failing (heard [Received reduceEmitChan (Identifiable ''a'' 3),
       Drained reduceEmitChan :: (nat, string, 64 word) event]) = Return (Some ''sentinel'')"
  using MapReduce_returns_Consume_result[where ?'w = 64, of 2
      "\<lparr>inbox = (\<lambda>c. if c = reduceEmitChan then [Identifiable ''a'' 3] else []),
        closing = (\<lambda>c. True), tokens = (\<lambda>c. 0)\<rparr>"
      failing "Some ''sentinel''" 7 2 7
      "\<lparr>inbox = (\<lambda>c. if c = reduceEmitChan then [Identifiable ''a'' 3] else []),
        closing = (\<lambda>c. True), tokens = (\<lambda>c. 0)\<rparr>"
      "[Started performReducing_newCloserChan, Started performMapping_newCloserChan,
       Marked (Consume_call reduceEmitChan),
       Received reduceEmitChan (Identifiable ''a'' 3), Drained reduceEmitChan,
       Marked (Consume_returns (Some ''sentinel'')), Marked (MapReduce_returns (Some ''sentinel''))]"
      exited "Some ''sentinel''"]
  by (simp add: failing_def counting_def deliveries_def arrival_def less_Suc_eq
      eval_nat_numeral)











end
